theory Spec2Isabelle
  imports Main "HOL-Library.Char_ord" "HOL-Library.List_Lexorder" "HOL-Library.Product_Lexorder"
begin

section \<open>Python strings and numbers\<close>

text \<open>
  Strings are lists of characters with code points below 256 (Latin-1). On that range
  \<open>str.lower\<close> adds 32 to A-Z and to the accented capitals 192-222 other than 215,
  \<open>str.strip\<close> removes the code points 9-13, 28-32, 133 and 160, the regular expression
  class \<open>\d\<close> is 0-9 and \<open>.\<close> is every character but the line feed. Strings are
  compared code point by code point, as the lexicographic order on lists of characters does.
\<close>

definition lower_char :: "char \<Rightarrow> char" where
  "lower_char c =
     (let n = (of_char c :: int)
      in if (65 \<le> n \<and> n \<le> 90) \<or> (192 \<le> n \<and> n \<le> 222 \<and> n \<noteq> 215)
         then char_of (n + 32) else c)"

definition lower :: "string \<Rightarrow> string" where
  "lower s = map lower_char s"

definition endswith :: "string \<Rightarrow> string \<Rightarrow> bool" where
  "endswith s x = (length x \<le> length s \<and> drop (length s - length x) s = x)"

definition startswith :: "string \<Rightarrow> string \<Rightarrow> bool" where
  "startswith s x = (take (length x) s = x)"

definition is_space :: "char \<Rightarrow> bool" where
  "is_space c =
     (let n = (of_char c :: int)
      in (9 \<le> n \<and> n \<le> 13) \<or> (28 \<le> n \<and> n \<le> 32) \<or> n = 133 \<or> n = 160)"

definition is_digit :: "char \<Rightarrow> bool" where
  "is_digit c = (let n = (of_char c :: int) in 48 \<le> n \<and> n \<le> 57)"

definition strip :: "string \<Rightarrow> string" where
  "strip s = rev (dropWhile is_space (rev (dropWhile is_space s)))"

text \<open>
  A positive Python float is a pair \<open>(m, e)\<close> standing for \<open>m * 2 ^ e\<close> with
  \<open>0 < m < 2 ^ 53\<close>. \<open>py_int_mul n f\<close> is \<open>int(n * f)\<close>: the exact product is rounded
  to 53 significant bits, ties to even, and then truncated. The rounding matters:
  \<open>int(90 * 0.7)\<close> is 62.
\<close>

type_synonym pyfloat = "int \<times> int"

function bit_length :: "int \<Rightarrow> nat" where
  "bit_length n = (if n \<le> 0 then 0 else Suc (bit_length (n div 2)))"
  by pat_completeness auto

termination
  by (relation "measure nat") auto

declare bit_length.simps [simp del]

definition py_int_mul :: "nat \<Rightarrow> pyfloat \<Rightarrow> nat" where
  "py_int_mul n f =
     (let p = int n * fst f;
          b = bit_length p;
          k = b - 53;
          q = p div 2 ^ k;
          r = p mod 2 ^ k;
          sig = (if 2 * r > 2 ^ k \<or> (2 * r = 2 ^ k \<and> odd q) then q + 1 else q);
          ex = snd f + int k
      in nat (if 0 \<le> ex then sig * 2 ^ nat ex else sig div 2 ^ nat (- ex)))"

definition f_0_15 :: pyfloat where "f_0_15 = (5404319552844595, - 55)"
definition f_0_25 :: pyfloat where "f_0_25 = (4503599627370496, - 54)"
definition f_0_85 :: pyfloat where "f_0_85 = (7656119366529843, - 53)"
definition f_0_7 :: pyfloat where "f_0_7 = (6305039478318694, - 53)"
definition f_0_75 :: pyfloat where "f_0_75 = (6755399441055744, - 53)"

section \<open>The fuzzy title matcher\<close>

text \<open>
  \<open>levenshtein_distance\<close> keeps two rows. The inner loop appends to \<open>current_row\<close>
  one cell per character of \<open>s2\<close>; the outer loop replaces \<open>previous_row\<close> once per
  character of \<open>s1\<close>. The source swaps its arguments once when \<open>s1\<close> is the shorter.
\<close>

definition lev_row :: "string \<Rightarrow> nat list \<Rightarrow> nat \<times> char \<Rightarrow> nat list" where
  "lev_row s2 previous_row ic =
     foldl (\<lambda>current_row j.
              let insertions = previous_row ! (j + 1) + 1;
                  deletions = current_row ! j + 1;
                  substitutions = previous_row ! j + (if snd ic \<noteq> s2 ! j then 1 else 0)
              in current_row @ [min insertions (min deletions substitutions)])
           [fst ic + 1] [0..<length s2]"

definition lev_rows :: "string \<Rightarrow> string \<Rightarrow> nat" where
  "lev_rows s1 s2 =
     (if length s2 = 0 then length s1
      else last (foldl (lev_row s2) [0..<length s2 + 1] (enumerate 0 s1)))"

definition levenshtein_distance :: "string \<Rightarrow> string \<Rightarrow> nat" where
  "levenshtein_distance s1 s2 =
     (if length s1 < length s2 then lev_rows s2 s1 else lev_rows s1 s2)"

definition common_prefix_len :: "string \<Rightarrow> string \<Rightarrow> nat" where
  "common_prefix_len a b = length (filter (\<lambda>(x, y). x = y) (zip a b))"

definition abs_diff :: "nat \<Rightarrow> nat \<Rightarrow> nat" where
  "abs_diff m n = (if m \<le> n then n - m else m - n)"

definition is_matching_title :: "string \<Rightarrow> string \<Rightarrow> string \<Rightarrow> bool" where
  "is_matching_title title expected_title expected_ext =
     (let t = lower title;
          e = lower expected_title;
          dist = levenshtein_distance t e;
          cp_len = common_prefix_len t e;
          len_diff = abs_diff (length t) (length e)
      in if length e \<ge> 30 then
           (let max_dist = py_int_mul (length e) f_0_15;
                max_len_diff = py_int_mul (length e) f_0_25;
                min_cp = py_int_mul (length e) f_0_85
            in if \<not> endswith t (lower expected_ext) then False
               else dist \<le> max_dist \<and> cp_len \<ge> min_cp \<and> len_diff \<le> max_len_diff)
         else
           (if \<not> endswith t (lower expected_ext) then False
            else dist \<le> max 2 len_diff \<and> cp_len \<ge> py_int_mul (length (min t e)) f_0_85))"

text \<open>
  The specification's wording of the two matcher rules, for comparison with the code:
  the common prefix stops at the first mismatch, and the short-title threshold takes the
  minimum of the two lengths.
\<close>

fun spec_common_prefix_len :: "string \<Rightarrow> string \<Rightarrow> nat" where
  "spec_common_prefix_len (x # xs) (y # ys) =
     (if x = y then Suc (spec_common_prefix_len xs ys) else 0)"
| "spec_common_prefix_len _ _ = 0"

definition spec_accepts_short :: "string \<Rightarrow> string \<Rightarrow> bool" where
  "spec_accepts_short title expected_title =
     (let t = lower title; e = lower expected_title
      in levenshtein_distance t e \<le> max 2 (abs_diff (length t) (length e)) \<and>
         spec_common_prefix_len t e \<ge> (85 * min (length t) (length e)) div 100)"

section \<open>Splitting a media name\<close>

text \<open>
  \<open>parse_duplicate_number\<close> matches \<open>^(.*?)(\(\d+\))?$\<close> at the start of the name.
  The first group is lazy, so the matcher tries its shortest extent first and grows it one
  character at a time, never over a line feed; at each extent it first tries the optional
  group, then the empty alternative, and \<open>$\<close> holds at the end of the string or before
  a final line feed. When nothing matches, the source returns the name unchanged.
\<close>

definition at_end :: "string \<Rightarrow> bool" where
  "at_end rest = (rest = [] \<or> rest = [CHR 0x0A])"

definition match_dup_group :: "string \<Rightarrow> string option" where
  "match_dup_group rest =
     (case rest of
        [] \<Rightarrow> None
      | c # cs \<Rightarrow>
          if c = CHR ''(''
          then (let ds = takeWhile is_digit cs
                in case dropWhile is_digit cs of
                     [] \<Rightarrow> None
                   | d # r \<Rightarrow>
                       if ds \<noteq> [] \<and> d = CHR '')'' \<and> at_end r
                       then Some (CHR ''('' # ds @ [CHR '')''])
                       else None)
          else None)"

fun re_match_dup :: "string \<Rightarrow> string \<Rightarrow> (string \<times> string option) option" where
  "re_match_dup g1 [] = Some (g1, None)"
| "re_match_dup g1 (c # cs) =
     (case match_dup_group (c # cs) of
        Some g2 \<Rightarrow> Some (g1, Some g2)
      | None \<Rightarrow>
          if at_end (c # cs) then Some (g1, None)
          else if c = CHR 0x0A then None
          else re_match_dup (g1 @ [c]) cs)"

definition parse_duplicate_number :: "string \<Rightarrow> string \<times> string" where
  "parse_duplicate_number name =
     (case re_match_dup [] name of
        Some (g1, g2) \<Rightarrow> (strip g1, case g2 of Some s \<Rightarrow> s | None \<Rightarrow> [])
      | None \<Rightarrow> (name, []))"

text \<open>
  The split as the specification words it: a trailing \<open>(N)\<close> is cut off and the
  remainder loses its trailing whitespace; any other name is returned whole.
\<close>

definition rstrip :: "string \<Rightarrow> string" where
  "rstrip s = rev (dropWhile is_space (rev s))"

definition spec_split :: "string \<Rightarrow> string \<times> string" where
  "spec_split name =
     (case rev name of
        [] \<Rightarrow> (name, [])
      | c # cs \<Rightarrow>
          (case dropWhile is_digit cs of
             [] \<Rightarrow> (name, [])
           | d # r \<Rightarrow>
               if c = CHR '')'' \<and> takeWhile is_digit cs \<noteq> [] \<and> d = CHR ''(''
               then (rstrip (rev r), CHR ''('' # rev (takeWhile is_digit cs) @ [CHR '')''])
               else (name, [])))"

definition ends_with_dup :: "string \<Rightarrow> string \<Rightarrow> string \<Rightarrow> bool" where
  "ends_with_dup name r ds =
     (name = r @ CHR ''('' # ds @ [CHR '')''] \<and> ds \<noteq> [] \<and> list_all is_digit ds)"

section \<open>Paths and file names\<close>

text \<open>
  \<open>join\<close> is \<open>os.path.join\<close> on two components and \<open>splitext\<close> is
  \<open>os.path.splitext\<close>, both for POSIX paths: an extension starts at the last dot after
  the last separator, unless only dots precede that dot in the file name.
\<close>

definition join :: "string \<Rightarrow> string \<Rightarrow> string" where
  "join a b =
     (if startswith b ''/'' then b
      else if a = [] \<or> endswith a ''/'' then a @ b
      else a @ ''/'' @ b)"

definition rfind :: "char \<Rightarrow> string \<Rightarrow> int" where
  "rfind c p =
     (if c \<in> set p then int (length p) - 1 - int (length (takeWhile (\<lambda>x. x \<noteq> c) (rev p)))
      else - 1)"

definition splitext :: "string \<Rightarrow> string \<times> string" where
  "splitext p =
     (let sepIndex = rfind CHR ''/'' p;
          dotIndex = rfind CHR ''.'' p
      in if dotIndex > sepIndex \<and>
            list_ex (\<lambda>c. c \<noteq> CHR ''.'') (take (nat (dotIndex - (sepIndex + 1))) (drop (nat (sepIndex + 1)) p))
         then (take (nat dotIndex) p, drop (nat dotIndex) p)
         else (p, []))"

definition is_media_file :: "string \<Rightarrow> bool" where
  "is_media_file filename =
     (lower (snd (splitext filename)) \<in>
        set [''.jpg'', ''.jpeg'', ''.png'', ''.gif'', ''.bmp'', ''.tiff'', ''.heic'', ''.heif'',
             ''.mp4'', ''.mov'', ''.avi''])"

text \<open>
  \<open>fnmatch.fnmatch\<close> belongs to the Python library. The functions below take the matcher
  as the parameter \<open>fm\<close> (name first, pattern second), and what is proved in general
  holds for every matcher. \<open>fnmatch\<close> is the library's matcher on patterns without
  bracket expressions, on POSIX where it leaves the case of its arguments alone:
  \<open>*\<close> stands for any run of characters, \<open>?\<close> for one character, and the whole name
  has to match. It is used at concrete inputs only.
\<close>

type_synonym matcher = "string \<Rightarrow> string \<Rightarrow> bool"

fun glob :: "string \<Rightarrow> string \<Rightarrow> bool" where
  "glob [] s = (s = [])"
| "glob (p # ps) [] = (p = CHR ''*'' \<and> glob ps [])"
| "glob (p # ps) (c # cs) =
     (if p = CHR ''*'' then glob ps (c # cs) \<or> glob (p # ps) cs
      else (p = CHR ''?'' \<or> p = c) \<and> glob ps cs)"

definition fnmatch :: matcher where
  "fnmatch name pat = glob pat name"

section \<open>Finding the sidecar of a media file\<close>

datatype error = ZeroDivisionError | FileNotFoundError

definition get_title :: "(string \<rightharpoonup> string) \<Rightarrow> string \<Rightarrow> string" where
  "get_title json_titles file = (case json_titles file of Some t \<Rightarrow> t | None \<Rightarrow> [])"

definition suffix_patterns :: "string \<Rightarrow> string \<Rightarrow> string \<Rightarrow> string \<Rightarrow> string list" where
  "suffix_patterns base_name media_ext num_suffix suffix =
     [base_name @ media_ext @ ''.'' @ suffix @ num_suffix @ ''.json'',
      base_name @ media_ext @ ''.'' @ suffix @ ''.json'',
      base_name @ ''.'' @ suffix @ num_suffix @ ''.json'',
      base_name @ ''.'' @ suffix @ ''.json'']"

definition patterns_of :: "string \<Rightarrow> string \<Rightarrow> string \<Rightarrow> string list \<Rightarrow> string list" where
  "patterns_of base_name media_ext num_suffix suffix_variants =
     concat (map (suffix_patterns base_name media_ext num_suffix) suffix_variants) @
     [base_name @ media_ext @ ''.*metadata'' @ num_suffix @ ''*.json'',
      base_name @ media_ext @ ''.*metadata*.json'',
      base_name @ media_ext @ ''.*.json'',
      base_name @ ''.*metadata'' @ num_suffix @ ''*.json'',
      base_name @ ''.*metadata*.json'',
      base_name @ ''.*.json'']"

text \<open>
  The first two loops of \<open>find_misnamed_json\<close>: for each pattern, for each sidecar file.
  \<open>Inl\<close> is the early return on an exact title, \<open>Inr\<close> the candidate list grown so far.
\<close>

type_synonym candidate = "string \<times> string \<times> nat"

fun scan_files ::
  "matcher \<Rightarrow> string \<Rightarrow> (string \<rightharpoonup> string) \<Rightarrow> string set \<Rightarrow> string \<Rightarrow> string \<Rightarrow>
   string list \<Rightarrow> candidate list \<Rightarrow> string + candidate list" where
  "scan_files fm dir_path json_titles used_jsons expected_title_lower pattern [] candidates =
     Inr candidates"
| "scan_files fm dir_path json_titles used_jsons expected_title_lower pattern (file # files) candidates =
     (if fm (lower file) (lower pattern) then
        (let json_path = join dir_path file
         in if json_path \<in> used_jsons
            then scan_files fm dir_path json_titles used_jsons expected_title_lower pattern files candidates
            else
              (let title = get_title json_titles file;
                   title_lower = lower title
               in if title_lower = expected_title_lower then Inl json_path
                  else
                    (let dist = levenshtein_distance title_lower expected_title_lower
                     in scan_files fm dir_path json_titles used_jsons expected_title_lower pattern files
                          (candidates @ [(json_path, title, dist)]))))
      else scan_files fm dir_path json_titles used_jsons expected_title_lower pattern files candidates)"

fun scan_patterns ::
  "matcher \<Rightarrow> string \<Rightarrow> (string \<rightharpoonup> string) \<Rightarrow> string set \<Rightarrow> string \<Rightarrow> string list \<Rightarrow>
   string list \<Rightarrow> candidate list \<Rightarrow> string + candidate list" where
  "scan_patterns fm dir_path json_titles used_jsons expected_title_lower json_files [] candidates =
     Inr candidates"
| "scan_patterns fm dir_path json_titles used_jsons expected_title_lower json_files (pattern # patterns) candidates =
     (case scan_files fm dir_path json_titles used_jsons expected_title_lower pattern json_files candidates of
        Inl json_path \<Rightarrow> Inl json_path
      | Inr candidates' \<Rightarrow>
          scan_patterns fm dir_path json_titles used_jsons expected_title_lower json_files patterns candidates')"

fun first_matching :: "string \<Rightarrow> string \<Rightarrow> candidate list \<Rightarrow> string option" where
  "first_matching expected_title media_ext [] = None"
| "first_matching expected_title media_ext ((json_path, title, dist) # candidates) =
     (if is_matching_title title expected_title media_ext then Some json_path
      else first_matching expected_title media_ext candidates)"

text \<open>
  The truncation sweeps. \<open>range_desc a stop step\<close> is \<open>range(a, stop, -step)\<close> for a
  positive step; \<open>trunc_lengths\<close> computes the bounds as the source does, and a step
  divisor of zero raises.
\<close>

function range_desc :: "int \<Rightarrow> int \<Rightarrow> int \<Rightarrow> int list" where
  "range_desc a stop step =
     (if step \<le> 0 \<or> a \<le> stop then [] else a # range_desc (a - step) stop step)"
  by pat_completeness auto

termination
  by (relation "measure (\<lambda>(a, stop, step). nat (a - stop))") auto

declare range_desc.simps [simp del]

definition trunc_lengths :: "nat \<Rightarrow> pyfloat \<Rightarrow> int \<Rightarrow> error + int list" where
  "trunc_lengths n min_prefix_factor step_divisor =
     (let min_prefix_length = max 20 (int (py_int_mul n min_prefix_factor))
      in if step_divisor = 0 then Inl ZeroDivisionError
         else (let step = max 1 ((int n - min_prefix_length) div step_divisor)
               in Inr (range_desc (int n) (min_prefix_length - 1) step)))"

fun probe_files ::
  "matcher \<Rightarrow> string \<Rightarrow> (string \<rightharpoonup> string) \<Rightarrow> string set \<Rightarrow> string \<Rightarrow> string \<Rightarrow> string \<Rightarrow>
   string \<Rightarrow> string list \<Rightarrow> string option" where
  "probe_files fm dir_path json_titles used_jsons expected_title media_ext expected_title_lower pattern [] =
     None"
| "probe_files fm dir_path json_titles used_jsons expected_title media_ext expected_title_lower pattern (file # files) =
     (if fm (lower file) (lower pattern) then
        (let json_path = join dir_path file
         in if json_path \<in> used_jsons
            then probe_files fm dir_path json_titles used_jsons expected_title media_ext
                   expected_title_lower pattern files
            else
              (let title = get_title json_titles file
               in if lower title = expected_title_lower then Some json_path
                  else if is_matching_title title expected_title media_ext then Some json_path
                  else probe_files fm dir_path json_titles used_jsons expected_title media_ext
                         expected_title_lower pattern files))
      else probe_files fm dir_path json_titles used_jsons expected_title media_ext
             expected_title_lower pattern files)"

fun probe_lengths ::
  "matcher \<Rightarrow> string \<Rightarrow> (string \<rightharpoonup> string) \<Rightarrow> string set \<Rightarrow> string \<Rightarrow> string \<Rightarrow> string \<Rightarrow>
   string list \<Rightarrow> string \<Rightarrow> int list \<Rightarrow> string option" where
  "probe_lengths fm dir_path json_titles used_jsons expected_title media_ext expected_title_lower
     json_files prefix [] = None"
| "probe_lengths fm dir_path json_titles used_jsons expected_title media_ext expected_title_lower
     json_files prefix (len # lens) =
     (let truncated_prefix = take (nat len) prefix;
          pattern = truncated_prefix @ ''*.json''
      in case probe_files fm dir_path json_titles used_jsons expected_title media_ext
                expected_title_lower pattern json_files of
           Some json_path \<Rightarrow> Some json_path
         | None \<Rightarrow>
             probe_lengths fm dir_path json_titles used_jsons expected_title media_ext
               expected_title_lower json_files prefix lens)"

text \<open>
  \<open>find_misnamed_json\<close>, without the parameter \<open>avg_len\<close>, which the source never reads.
\<close>

definition find_misnamed_json ::
  "matcher \<Rightarrow> string \<Rightarrow> string \<Rightarrow> string \<Rightarrow> string \<Rightarrow> string list \<Rightarrow> (string \<rightharpoonup> string) \<Rightarrow>
   string set \<Rightarrow> string list \<Rightarrow> pyfloat \<Rightarrow> int \<Rightarrow> error + string option" where
  "find_misnamed_json fm dir_path base_name media_ext num_suffix json_files json_titles used_jsons
     suffix_variants min_prefix_factor step_divisor =
     (let full_prefix = base_name @ media_ext;
          expected_title = base_name @ media_ext;
          expected_title_lower = lower expected_title;
          patterns = patterns_of base_name media_ext num_suffix suffix_variants
      in case scan_patterns fm dir_path json_titles used_jsons expected_title_lower json_files patterns [] of
           Inl json_path \<Rightarrow> Inr (Some json_path)
         | Inr candidates \<Rightarrow>
             (case first_matching expected_title media_ext candidates of
                Some json_path \<Rightarrow> Inr (Some json_path)
              | None \<Rightarrow>
                  (case trunc_lengths (length base_name) min_prefix_factor step_divisor of
                     Inl e \<Rightarrow> Inl e
                   | Inr lens \<Rightarrow>
                       (case probe_lengths fm dir_path json_titles used_jsons expected_title media_ext
                               expected_title_lower json_files base_name lens of
                          Some json_path \<Rightarrow> Inr (Some json_path)
                        | None \<Rightarrow>
                            (case trunc_lengths (length full_prefix) min_prefix_factor step_divisor of
                               Inl e \<Rightarrow> Inl e
                             | Inr lens' \<Rightarrow>
                                 Inr (probe_lengths fm dir_path json_titles used_jsons expected_title
                                        media_ext expected_title_lower json_files full_prefix lens'))))))"

section \<open>The session of one directory\<close>

text \<open>
  The state of the loop over the media files of one directory: the set \<open>used_jsons\<close>,
  the paths that exist on disk (what \<open>os.path.exists\<close> answers and \<open>os.rename\<close>
  changes), and the trace of what was done. Every event names the media file it belongs
  to; \<open>Kept\<close> stands for a match that is already at its canonical path, which the source
  marks as used without a log line. \<open>os.rename\<close> succeeds when its source exists; its
  target is known not to exist when it is called.
\<close>

datatype event =
    No_json string
  | Conflict string string string
  | Would_rename string string string
  | Renamed string string string
  | Rename_failed string string string
  | Kept string string
  | Embed string string bool bool

record session =
  used_jsons :: "string set"
  disk :: "string set"
  trace :: "event list"

definition add_event :: "event \<Rightarrow> session \<Rightarrow> session" where
  "add_event ev s = s\<lparr>trace := trace s @ [ev]\<rparr>"

text \<open>
  \<open>embed_metadata\<close> is an external step that touches no sidecar path, so it is recorded
  as an event. In a real run it starts the metadata tool outside every \<open>try\<close>: when
  the tool cannot be started (\<open>exiftool\<close> is false) the exception ends the whole run.
  All its other failures are caught and logged inside.
\<close>

definition embed_metadata ::
  "bool \<Rightarrow> string \<Rightarrow> string \<Rightarrow> bool \<Rightarrow> bool \<Rightarrow> session \<Rightarrow> error option \<times> session" where
  "embed_metadata exiftool media_path json_path dry_run create_backup s =
     (if dry_run then (None, add_event (Embed media_path json_path dry_run create_backup) s)
      else if exiftool then (None, add_event (Embed media_path json_path dry_run create_backup) s)
      else (Some FileNotFoundError, s))"

definition embed_if_renamed ::
  "bool \<Rightarrow> bool \<Rightarrow> string \<Rightarrow> string \<Rightarrow> bool \<Rightarrow> bool \<Rightarrow> bool \<times> session \<Rightarrow>
   error option \<times> session" where
  "embed_if_renamed exiftool do_embed full_media_path preferred_json_path dry_run create_backup rs =
     (case rs of (renamed, s) \<Rightarrow>
        if do_embed \<and> renamed
        then embed_metadata exiftool full_media_path preferred_json_path dry_run create_backup s
        else (None, s))"

text \<open>
  The body of the loop over the media files, with the state it leaves and the exception
  that ends the run, if any. \<open>if json_path:\<close> is false for \<open>None\<close> and for the empty
  string; \<open>continue\<close> leaves the body before the embedding.
\<close>

definition handle_media ::
  "matcher \<Rightarrow> bool \<Rightarrow> string \<Rightarrow> string list \<Rightarrow> (string \<rightharpoonup> string) \<Rightarrow> bool \<Rightarrow> string list \<Rightarrow>
   pyfloat \<Rightarrow> int \<Rightarrow> bool \<Rightarrow> bool \<Rightarrow> string \<Rightarrow> session \<Rightarrow> error option \<times> session" where
  "handle_media fm exiftool subdir json_files json_titles dry_run suffix_variants min_prefix_factor
     step_divisor do_embed create_backup file s =
     (let full_media_path = join subdir file;
          (media_name, media_ext) = splitext file;
          (base_name, num_suffix) = parse_duplicate_number media_name
      in case find_misnamed_json fm subdir base_name media_ext num_suffix json_files json_titles
                (used_jsons s) suffix_variants min_prefix_factor step_divisor of
           Inl e \<Rightarrow> (Some e, s)
         | Inr None \<Rightarrow> (None, add_event (No_json full_media_path) s)
         | Inr (Some json_path) \<Rightarrow>
             if json_path = [] then (None, add_event (No_json full_media_path) s)
             else
               (let preferred_json_name =
                      base_name @ num_suffix @ media_ext @ ''.supplemental-metadata.json'';
                    preferred_json_path = join subdir preferred_json_name
                in if json_path \<noteq> preferred_json_path then
                     (if preferred_json_path \<in> disk s then
                        (None, add_event (Conflict full_media_path json_path preferred_json_path) s)
                      else
                        embed_if_renamed exiftool do_embed full_media_path preferred_json_path
                          dry_run create_backup
                          (if \<not> dry_run then
                             (if json_path \<in> disk s then
                                (True,
                                 add_event (Renamed full_media_path json_path preferred_json_path)
                                   (s\<lparr>disk := insert preferred_json_path (disk s - {json_path}),
                                      used_jsons := insert preferred_json_path (used_jsons s)\<rparr>))
                              else
                                (False,
                                 add_event (Rename_failed full_media_path json_path preferred_json_path) s))
                           else
                             (True,
                              add_event (Would_rename full_media_path json_path preferred_json_path)
                                (s\<lparr>used_jsons := insert json_path (used_jsons s)\<rparr>))))
                   else
                     embed_if_renamed exiftool do_embed full_media_path preferred_json_path
                       dry_run create_backup
                       (True,
                        add_event (Kept full_media_path json_path)
                          (s\<lparr>used_jsons := insert json_path (used_jsons s)\<rparr>))))"

text \<open>
  The loop itself. No exception is caught here: the first one ends the run with the state
  reached so far.
\<close>

fun process_media_files ::
  "matcher \<Rightarrow> bool \<Rightarrow> string \<Rightarrow> string list \<Rightarrow> (string \<rightharpoonup> string) \<Rightarrow> bool \<Rightarrow> string list \<Rightarrow>
   pyfloat \<Rightarrow> int \<Rightarrow> bool \<Rightarrow> bool \<Rightarrow> string list \<Rightarrow> session \<Rightarrow> error option \<times> session" where
  "process_media_files fm exiftool subdir json_files json_titles dry_run suffix_variants
     min_prefix_factor step_divisor do_embed create_backup [] s = (None, s)"
| "process_media_files fm exiftool subdir json_files json_titles dry_run suffix_variants
     min_prefix_factor step_divisor do_embed create_backup (file # media_files) s =
     (case handle_media fm exiftool subdir json_files json_titles dry_run suffix_variants
             min_prefix_factor step_divisor do_embed create_backup file s of
        (Some e, s') \<Rightarrow> (Some e, s')
      | (None, s') \<Rightarrow>
          process_media_files fm exiftool subdir json_files json_titles dry_run suffix_variants
            min_prefix_factor step_divisor do_embed create_backup media_files s')"

text \<open>
  Setting a directory up: the media files sorted by \<open>custom_media_sort\<close>, the sidecar
  files, and the title cache read once from the sidecars' contents. \<open>contents\<close> gives the
  title a sidecar path declares; an unreadable sidecar or one without a title has none.
  Titles are strings: a sidecar whose title is a number or a list is outside the model.
\<close>

definition strip_chars :: "string \<Rightarrow> string \<Rightarrow> string" where
  "strip_chars chars s =
     rev (dropWhile (\<lambda>c. c \<in> set chars) (rev (dropWhile (\<lambda>c. c \<in> set chars) s)))"

definition py_int :: "string \<Rightarrow> int" where
  "py_int ds = foldl (\<lambda>a c. 10 * a + (of_char c - 48)) 0 ds"

definition custom_media_sort :: "string \<Rightarrow> bool \<times> int \<times> string" where
  "custom_media_sort filename =
     (let (media_name, ext) = splitext filename;
          (base_name, num_suffix) = parse_duplicate_number media_name;
          has_dup = (num_suffix \<noteq> []);
          dup_num = (if num_suffix \<noteq> [] then py_int (strip_chars ''()'' num_suffix) else 0)
      in (has_dup, dup_num, filename))"

definition get_json_title :: "(string \<rightharpoonup> string) \<Rightarrow> string \<Rightarrow> string" where
  "get_json_title contents json_path = (case contents json_path of Some t \<Rightarrow> t | None \<Rightarrow> [])"

definition load_json_titles ::
  "(string \<rightharpoonup> string) \<Rightarrow> string \<Rightarrow> string list \<Rightarrow> (string \<rightharpoonup> string)" where
  "load_json_titles contents dir_path json_files =
     fold (\<lambda>jf cache. cache(jf \<mapsto> get_json_title contents (join dir_path jf))) json_files Map.empty"

definition process_subdir ::
  "matcher \<Rightarrow> bool \<Rightarrow> (string \<rightharpoonup> string) \<Rightarrow> bool \<Rightarrow> string list \<Rightarrow> pyfloat \<Rightarrow> int \<Rightarrow> bool \<Rightarrow>
   bool \<Rightarrow> string \<Rightarrow> string list \<Rightarrow> string set \<Rightarrow> error option \<times> session" where
  "process_subdir fm exiftool contents dry_run suffix_variants min_prefix_factor step_divisor do_embed
     create_backup subdir files disk0 =
     (let media_files = sort_key custom_media_sort (filter is_media_file files);
          json_files = filter (\<lambda>f. endswith (lower f) ''.json'') files;
          json_titles = load_json_titles contents subdir json_files
      in process_media_files fm exiftool subdir json_files json_titles dry_run suffix_variants
           min_prefix_factor step_divisor do_embed create_backup media_files
           \<lparr>used_jsons = {}, disk = disk0, trace = []\<rparr>)"

text \<open>
  \<open>process_directory\<close> runs the directories of the walk in order, each with a fresh
  \<open>used_jsons\<close>, and hands the disk on.
\<close>

fun process_directory ::
  "matcher \<Rightarrow> bool \<Rightarrow> (string \<rightharpoonup> string) \<Rightarrow> bool \<Rightarrow> string list \<Rightarrow> pyfloat \<Rightarrow> int \<Rightarrow> bool \<Rightarrow>
   bool \<Rightarrow> (string \<times> string list) list \<Rightarrow> string set \<Rightarrow> error option \<times> session list" where
  "process_directory fm exiftool contents dry_run suffix_variants min_prefix_factor step_divisor do_embed
     create_backup [] disk0 = (None, [])"
| "process_directory fm exiftool contents dry_run suffix_variants min_prefix_factor step_divisor do_embed
     create_backup ((subdir, files) # walk) disk0 =
     (case process_subdir fm exiftool contents dry_run suffix_variants min_prefix_factor step_divisor
             do_embed create_backup subdir files disk0 of
        (Some e, s) \<Rightarrow> (Some e, [s])
      | (None, s) \<Rightarrow>
          (case process_directory fm exiftool contents dry_run suffix_variants min_prefix_factor
                  step_divisor do_embed create_backup walk (disk s) of
             (r, ss) \<Rightarrow> (r, s # ss)))"

text \<open>
  What a trace says about the matches: the resolutions (media path, matched sidecar path,
  whether a rename is needed), in the order of the media files. A conflict and a media
  file without a match give no resolution.
\<close>

fun resolution_of :: "event \<Rightarrow> (string \<times> string \<times> bool) option" where
  "resolution_of (Would_rename m j p) = Some (m, j, True)"
| "resolution_of (Renamed m j p) = Some (m, j, True)"
| "resolution_of (Rename_failed m j p) = Some (m, j, True)"
| "resolution_of (Kept m j) = Some (m, j, False)"
| "resolution_of _ = None"

definition resolutions :: "event list \<Rightarrow> (string \<times> string \<times> bool) list" where
  "resolutions evs = List.map_filter resolution_of evs"

section \<open>Notions used in the statements and proofs\<close>

text \<open>
  A pattern hits a sidecar file when the matcher accepts the lower-cased pair and the file's
  path is not in \<open>used_jsons\<close>. \<open>cands_ok\<close> is the invariant of the candidate list:
  every candidate is an unused sidecar of the listing with its cached title.
\<close>

definition hit :: "matcher \<Rightarrow> string \<Rightarrow> string set \<Rightarrow> string \<Rightarrow> string \<Rightarrow> bool" where
  "hit fm dir_path used pattern file =
     (fm (lower file) (lower pattern) \<and> join dir_path file \<notin> used)"

definition cands_ok :: "string \<Rightarrow> (string \<rightharpoonup> string) \<Rightarrow> string set \<Rightarrow> string list \<Rightarrow> candidate list \<Rightarrow> bool" where
  "cands_ok dir_path json_titles used files cands =
     (\<forall>c\<in>set cands. \<exists>f\<in>set files. fst c = join dir_path f \<and> fst (snd c) = get_title json_titles f \<and>
                        fst c \<notin> used)"

text \<open>
  \<open>settle\<close> is the part of the loop body that follows a match: conflict, rename (real or
  simulated) or nothing to rename, then the embedding.
\<close>

definition settle ::
  "bool \<Rightarrow> bool \<Rightarrow> bool \<Rightarrow> bool \<Rightarrow> string \<Rightarrow> string \<Rightarrow> string \<Rightarrow> session \<Rightarrow> error option \<times> session" where
  "settle exiftool dry_run do_embed create_backup m j p s =
     (if j \<noteq> p then
        (if p \<in> disk s then (None, add_event (Conflict m j p) s)
         else
           embed_if_renamed exiftool do_embed m p dry_run create_backup
             (if \<not> dry_run then
                (if j \<in> disk s then
                   (True,
                    add_event (Renamed m j p)
                      (s\<lparr>disk := insert p (disk s - {j}), used_jsons := insert p (used_jsons s)\<rparr>))
                 else (False, add_event (Rename_failed m j p) s))
              else (True, add_event (Would_rename m j p) (s\<lparr>used_jsons := insert j (used_jsons s)\<rparr>))))
      else
        embed_if_renamed exiftool do_embed m p dry_run create_backup
          (True, add_event (Kept m j) (s\<lparr>used_jsons := insert j (used_jsons s)\<rparr>)))"

text \<open>
  \<open>upto_first_rename\<close> cuts a resolution sequence after its first resolution that needs
  a rename. Two sessions are \<open>sim\<close>ilar when they agree on \<open>used_jsons\<close>, on the disk and
  on the resolutions so far; a step of the two modes agrees when it leaves similar sessions
  or adds the same resolution with a rename to both.
\<close>

fun upto_first_rename :: "(string \<times> string \<times> bool) list \<Rightarrow> (string \<times> string \<times> bool) list" where
  "upto_first_rename [] = []"
| "upto_first_rename ((m, j, needs_rename) # rs) =
     (if needs_rename then [(m, j, needs_rename)] else (m, j, needs_rename) # upto_first_rename rs)"

definition has_rename :: "(string \<times> string \<times> bool) list \<Rightarrow> bool" where
  "has_rename rs = list_ex (\<lambda>r. snd (snd r)) rs"

definition sim :: "session \<Rightarrow> session \<Rightarrow> bool" where
  "sim s1 s2 = (used_jsons s1 = used_jsons s2 \<and> disk s1 = disk s2 \<and>
                resolutions (trace s1) = resolutions (trace s2))"

definition step_agrees :: "session \<Rightarrow> session \<Rightarrow> session \<Rightarrow> session \<Rightarrow> bool" where
  "step_agrees s1 s2 a b =
     (sim a b \<or>
      (\<exists>r. snd (snd r) \<and> resolutions (trace a) = resolutions (trace s1) @ [r] \<and>
           resolutions (trace b) = resolutions (trace s2) @ [r]))"

section \<open>Properties of the matcher\<close>

text \<open>
  C5 (code differs). The claim: the common-prefix length counts equal characters from
  index 0 up to the first mismatch. The code counts every position at which the two strings
  agree: on \<open>abxd\<close> and \<open>abyd\<close> it returns 3, where the prefix length of the claim is 2.
\<close>

theorem common_prefix_len_counts_past_mismatch:
  "common_prefix_len ''abxd'' ''abyd'' = 3 \<and> spec_common_prefix_len ''abxd'' ''abyd'' = 2"
  by (simp add: common_prefix_len_def)

text \<open>
  C6. A title that does not end with the expected extension, both in lower case, is
  rejected whatever the distance, the common prefix and the lengths are.
\<close>

theorem is_matching_title_requires_ext:
  "\<not> endswith (lower title) (lower expected_ext) \<Longrightarrow>
   \<not> is_matching_title title expected_title expected_ext"
  by (simp add: is_matching_title_def Let_def)

text \<open>
  The extension gate at a concrete input: a title ending in \<open>.mov\<close> is rejected for a
  media file with the extension \<open>.MP4\<close> although the stems are equal.
\<close>

theorem is_matching_title_requires_ext_witness:
  "\<not> endswith (lower ''clip.mov'') (lower ''.MP4'') \<and>
   \<not> is_matching_title ''clip.mov'' ''clip.mp4'' ''.MP4''"
  using is_matching_title_requires_ext [of "''clip.mov''" "''.MP4''" "''clip.mp4''"]
  by code_simp

text \<open>
  C4 (code differs). The claim: below 30 characters the matcher accepts exactly when the
  distance is at most \<open>max(2, lenDiff)\<close> and the common prefix is at least
  \<open>floor(0.85 * min(len(observed), len(expected)))\<close>. The code takes the length of the
  lexicographically smaller string, not the smaller length. The expected title
  \<open>IMG_20230101_1234567892.jpg\<close> has 27 characters; the observed title has one more and
  is the smaller string, so the code asks for 23 common characters where the claim asks
  for 22, and rejects a pair the claim accepts. Both prefix counts are 22 here.
\<close>

theorem is_matching_title_short_string_min:
  "length (lower ''IMG_20230101_1234567892.jpg'') < 30 \<and>
   endswith (lower ''IMG_20230101_12345678912.jpg'') (lower ''.jpg'') \<and>
   common_prefix_len (lower ''IMG_20230101_12345678912.jpg'') (lower ''IMG_20230101_1234567892.jpg'') = 22 \<and>
   spec_accepts_short ''IMG_20230101_12345678912.jpg'' ''IMG_20230101_1234567892.jpg'' \<and>
   \<not> is_matching_title ''IMG_20230101_12345678912.jpg'' ''IMG_20230101_1234567892.jpg'' ''.jpg''"
  by code_simp

lemma lower_Nil_iff: "lower s = [] \<longleftrightarrow> s = []"
  by (simp add: lower_def)

lemma endswith_Nil: "endswith [] x \<longleftrightarrow> x = []"
  by (auto simp: endswith_def)

lemma is_matching_title_endswith:
  "is_matching_title title expected_title expected_ext \<Longrightarrow>
   endswith (lower title) (lower expected_ext)"
  by (simp add: is_matching_title_def Let_def split: if_splits)

section \<open>Properties of the name split\<close>

text \<open>
  C7 as stated fails. The claim: a name without a trailing \<open>(N)\<close> is returned as the
  full unmodified string. The code strips the first group on both sides in every case, so
  the media name \<open>photo \<close> (of the file \<open>photo .jpg\<close>) loses its trailing blank.
\<close>

theorem parse_duplicate_number_strips_plain_name:
  "parse_duplicate_number ''photo '' = (''photo'', []) \<and>
   spec_split ''photo '' = (''photo '', [])"
  by code_simp

lemma takeWhile_dropWhile_stop:
  "\<forall>x\<in>set xs. P x \<Longrightarrow> \<not> P y \<Longrightarrow>
   takeWhile P (xs @ y # ys) = xs \<and> dropWhile P (xs @ y # ys) = y # ys"
  by (induction xs) auto

lemma is_digit_paren: "\<not> is_digit CHR ''(''" "\<not> is_digit CHR '')''"
  by (simp_all add: is_digit_def)

lemma match_dup_group_whole:
  assumes "ds \<noteq> []" "list_all is_digit ds"
  shows "match_dup_group (CHR ''('' # ds @ [CHR '')'']) = Some (CHR ''('' # ds @ [CHR '')''])"
proof -
  have "\<forall>x\<in>set ds. is_digit x" using assms(2) by (simp add: list_all_iff)
  from takeWhile_dropWhile_stop[OF this is_digit_paren(2), of "[]"]
  have tw: "takeWhile is_digit (ds @ [CHR '')'']) = ds"
    and dw: "dropWhile is_digit (ds @ [CHR '')'']) = [CHR '')'']" by simp_all
  show ?thesis using assms(1) by (simp add: match_dup_group_def tw dw at_end_def)
qed

lemma match_dup_group_SomeD:
  assumes "match_dup_group rest = Some g" "CHR 0x0A \<notin> set rest"
  shows "\<exists>ds. rest = CHR ''('' # ds @ [CHR '')''] \<and> ds \<noteq> [] \<and> list_all is_digit ds \<and> g = rest"
proof -
  from assms(1) obtain cs where r: "rest = CHR ''('' # cs"
    by (auto simp: match_dup_group_def split: list.splits if_splits)
  define ds where "ds = takeWhile is_digit cs"
  from assms(1) r obtain tl where d: "dropWhile is_digit cs = CHR '')'' # tl" "ds \<noteq> []"
    "at_end tl" "g = CHR ''('' # ds @ [CHR '')'']"
    by (auto simp: match_dup_group_def Let_def ds_def split: list.splits if_splits)
  have cs: "cs = ds @ CHR '')'' # tl"
    using d(1) takeWhile_dropWhile_id[of is_digit cs] by (simp add: ds_def)
  have "CHR 0x0A \<notin> set tl" using assms(2) r cs by simp
  with d(3) have tl: "tl = []" by (auto simp: at_end_def)
  have "\<forall>x\<in>set ds. is_digit x" unfolding ds_def by (meson set_takeWhileD)
  then have "list_all is_digit ds" by (simp add: list_all_iff)
  with r cs tl d show ?thesis by simp
qed

lemma ends_with_dup_rev:
  assumes "ends_with_dup name r ds"
  shows "takeWhile is_digit (tl (rev name)) = rev ds \<and>
         dropWhile is_digit (tl (rev name)) = CHR ''('' # rev r"
proof -
  have n1: "name = r @ CHR ''('' # ds @ [CHR '')'']"
    using assms by (simp add: ends_with_dup_def)
  have da: "\<forall>x\<in>set (rev ds). is_digit x"
    using assms by (simp add: ends_with_dup_def list_all_iff)
  have a: "tl (rev name) = rev ds @ CHR ''('' # rev r" unfolding n1 by simp
  show ?thesis unfolding a
    by (rule takeWhile_dropWhile_stop[OF da is_digit_paren(1)])
qed

lemma ends_with_dup_unique:
  assumes "ends_with_dup name r ds" "ends_with_dup name r' ds'"
  shows "r = r' \<and> ds = ds'"
proof -
  from ends_with_dup_rev[OF assms(1)] ends_with_dup_rev[OF assms(2)]
  have "rev ds = rev ds'" "CHR ''('' # rev r = CHR ''('' # rev r'" by simp_all
  then show ?thesis by simp
qed

lemma re_match_dup_char:
  assumes "CHR 0x0A \<notin> set rest"
  shows "(\<forall>r ds. ends_with_dup rest r ds \<longrightarrow>
            re_match_dup g1 rest = Some (g1 @ r, Some (CHR ''('' # ds @ [CHR '')''])))
       \<and> ((\<forall>r ds. \<not> ends_with_dup rest r ds) \<longrightarrow> re_match_dup g1 rest = Some (g1 @ rest, None))"
  using assms
proof (induction rest arbitrary: g1)
  case Nil
  show ?case by (simp add: ends_with_dup_def)
next
  case (Cons c cs)
  have nl: "CHR 0x0A \<notin> set cs" "c \<noteq> CHR 0x0A" using Cons.prems by auto
  show ?case
  proof (cases "match_dup_group (c # cs)")
    case (Some g)
    from match_dup_group_SomeD[OF Some Cons.prems] obtain ds0 where
      w: "c # cs = CHR ''('' # ds0 @ [CHR '')'']" "ds0 \<noteq> []" "list_all is_digit ds0" "g = c # cs"
      by blast
    have e0: "ends_with_dup (c # cs) [] ds0" using w(1,2,3) by (simp add: ends_with_dup_def)
    have res: "re_match_dup g1 (c # cs) = Some (g1, Some (c # cs))"
      using Some w(4) by simp
    have p1: "re_match_dup g1 (c # cs) = Some (g1 @ r, Some (CHR ''('' # ds @ [CHR '')'']))"
      if a: "ends_with_dup (c # cs) r ds" for r ds
    proof -
      from ends_with_dup_unique[OF a e0] have "r = []" "ds = ds0" by simp_all
      then show ?thesis using res w(1) by simp
    qed
    show ?thesis using p1 e0 by blast
  next
    case None
    have ne: "\<not> at_end (c # cs)" using nl by (simp add: at_end_def)
    have step: "re_match_dup g1 (c # cs) = re_match_dup (g1 @ [c]) cs"
      using None ne nl by simp
    have shift1: "\<exists>r'. r = c # r' \<and> ends_with_dup cs r' ds"
      if a: "ends_with_dup (c # cs) r ds" for r ds
    proof (cases r)
      case Nil
      with a have "match_dup_group (c # cs) = Some (c # cs)"
        using match_dup_group_whole[of ds] by (simp add: ends_with_dup_def)
      with None show ?thesis by simp
    next
      case (Cons x xs)
      with a show ?thesis by (simp add: ends_with_dup_def)
    qed
    have shift2: "ends_with_dup (c # cs) (c # r') ds" if "ends_with_dup cs r' ds" for r' ds
      using that by (simp add: ends_with_dup_def)
    note IH = Cons.IH[OF nl(1), of "g1 @ [c]"]
    have p1: "re_match_dup g1 (c # cs) = Some (g1 @ r, Some (CHR ''('' # ds @ [CHR '')'']))"
      if a: "ends_with_dup (c # cs) r ds" for r ds
    proof -
      from shift1[OF a] obtain r' where r': "r = c # r'" "ends_with_dup cs r' ds" by blast
      from IH r'(2)
      have "re_match_dup (g1 @ [c]) cs = Some ((g1 @ [c]) @ r', Some (CHR ''('' # ds @ [CHR '')'']))"
        by blast
      then show ?thesis unfolding step r'(1) by simp
    qed
    have p2: "re_match_dup g1 (c # cs) = Some (g1 @ c # cs, None)"
      if a: "\<forall>r ds. \<not> ends_with_dup (c # cs) r ds"
    proof -
      from a shift2 have "\<forall>r ds. \<not> ends_with_dup cs r ds" by blast
      with IH have "re_match_dup (g1 @ [c]) cs = Some ((g1 @ [c]) @ cs, None)" by blast
      then show ?thesis unfolding step by simp
    qed
    show ?thesis using p1 p2 by blast
  qed
qed

text \<open>
  C7, amended. For a name without a line feed: when the name is \<open>r\<close> followed by a
  parenthesised run of one or more digits, the suffix is that run with its parentheses and
  the base name is \<open>r\<close> stripped of whitespace on both sides; when the name has no such
  ending, the suffix is empty and the base name is the whole name stripped of whitespace on
  both sides. The function is total: every name has a split.
\<close>

theorem parse_duplicate_number_split:
  assumes "CHR 0x0A \<notin> set name"
  shows "(ends_with_dup name r ds \<longrightarrow>
            parse_duplicate_number name = (strip r, CHR ''('' # ds @ [CHR '')'']))
       \<and> ((\<forall>r ds. \<not> ends_with_dup name r ds) \<longrightarrow>
            parse_duplicate_number name = (strip name, []))"
  using re_match_dup_char[OF assms, of "[]"] by (auto simp: parse_duplicate_number_def)

text \<open>
  The split at two names: one with a duplicate number and blanks around the base, one
  without a duplicate number.
\<close>

theorem parse_duplicate_number_split_witness:
  "CHR 0x0A \<notin> set '' IMG_01 (2)'' \<and> ends_with_dup '' IMG_01 (2)'' '' IMG_01 '' ''2'' \<and>
   parse_duplicate_number '' IMG_01 (2)'' = (''IMG_01'', ''(2)'') \<and>
   CHR 0x0A \<notin> set ''photo '' \<and> (\<forall>r ds. \<not> ends_with_dup ''photo '' r ds) \<and>
   parse_duplicate_number ''photo '' = (''photo'', [])"
proof -
  have a: "CHR 0x0A \<notin> set '' IMG_01 (2)''" by simp
  have b: "ends_with_dup '' IMG_01 (2)'' '' IMG_01 '' ''2''" by code_simp
  have c: "strip '' IMG_01 '' = ''IMG_01''" by code_simp
  have a': "CHR 0x0A \<notin> set ''photo ''" by simp
  have b': "\<forall>r ds. \<not> ends_with_dup ''photo '' r ds"
  proof (intro allI notI)
    fix r ds
    assume "ends_with_dup ''photo '' r ds"
    then have "''photo '' = r @ CHR ''('' # ds @ [CHR '')'']" by (simp add: ends_with_dup_def)
    then have "last ''photo '' = last (r @ CHR ''('' # ds @ [CHR '')''])" by (rule arg_cong)
    then show False by simp
  qed
  have c': "strip ''photo '' = ''photo''" by code_simp
  from parse_duplicate_number_split[OF a, of "'' IMG_01 ''" "''2''"]
       parse_duplicate_number_split[OF a', of "[]" "[]"] a b c a' b' c'
  show ?thesis by simp
qed

section \<open>Properties of the search\<close>

lemma scan_files_Inl:
  "scan_files fm dir_path json_titles used etl pattern files cands = Inl p \<Longrightarrow>
   \<exists>f\<in>set files. hit fm dir_path used pattern f \<and> p = join dir_path f \<and>
                  lower (get_title json_titles f) = etl"
  by (induction files arbitrary: cands) (auto simp: Let_def hit_def split: if_splits)

lemma scan_files_Inr_exact:
  "scan_files fm dir_path json_titles used etl pattern files cands = Inr cands' \<Longrightarrow>
   f \<in> set files \<Longrightarrow> hit fm dir_path used pattern f \<Longrightarrow> lower (get_title json_titles f) \<noteq> etl"
  by (induction files arbitrary: cands) (auto simp: Let_def hit_def split: if_splits)

lemma scan_files_Inr_cands:
  "scan_files fm dir_path json_titles used etl pattern files cands = Inr cands' \<Longrightarrow>
   set files \<subseteq> set json_files \<Longrightarrow>
   cands_ok dir_path json_titles used json_files cands \<Longrightarrow>
   cands_ok dir_path json_titles used json_files cands'"
proof (induction files arbitrary: cands)
  case Nil
  then show ?case by simp
next
  case (Cons fl files)
  show ?case
  proof (cases "hit fm dir_path used pattern fl")
    case False
    then have "scan_files fm dir_path json_titles used etl pattern (fl # files) cands =
               scan_files fm dir_path json_titles used etl pattern files cands"
      by (auto simp: hit_def Let_def)
    with Cons show ?thesis by simp
  next
    case True
    with Cons.prems(1) have ne: "lower (get_title json_titles fl) \<noteq> etl"
      by (auto simp: hit_def Let_def split: if_splits)
    let ?c = "(join dir_path fl, get_title json_titles fl,
               levenshtein_distance (lower (get_title json_titles fl)) etl)"
    have step: "scan_files fm dir_path json_titles used etl pattern (fl # files) cands =
               scan_files fm dir_path json_titles used etl pattern files (cands @ [?c])"
      using True ne by (simp add: hit_def Let_def)
    have "cands_ok dir_path json_titles used json_files (cands @ [?c])"
      using Cons.prems(2,3) True by (auto simp: cands_ok_def hit_def)
    with Cons step show ?thesis by simp
  qed
qed

lemma scan_patterns_Inl:
  "scan_patterns fm dir_path json_titles used etl json_files patterns cands = Inl p \<Longrightarrow>
   \<exists>pattern\<in>set patterns. \<exists>f\<in>set json_files. hit fm dir_path used pattern f \<and> p = join dir_path f \<and>
                  lower (get_title json_titles f) = etl"
proof (induction patterns arbitrary: cands)
  case Nil
  then show ?case by simp
next
  case (Cons pattern patterns)
  show ?case
  proof (cases "scan_files fm dir_path json_titles used etl pattern json_files cands")
    case (Inl q)
    with Cons.prems have "q = p" by simp
    with scan_files_Inl[OF Inl] show ?thesis by auto
  next
    case (Inr cands')
    with Cons.prems have "scan_patterns fm dir_path json_titles used etl json_files patterns cands' = Inl p"
      by simp
    from Cons.IH[OF this] show ?thesis by auto
  qed
qed

lemma scan_patterns_Inr_exact:
  "scan_patterns fm dir_path json_titles used etl json_files patterns cands = Inr cands' \<Longrightarrow>
   pattern \<in> set patterns \<Longrightarrow> f \<in> set json_files \<Longrightarrow> hit fm dir_path used pattern f \<Longrightarrow>
   lower (get_title json_titles f) \<noteq> etl"
proof (induction patterns arbitrary: cands)
  case Nil
  then show ?case by simp
next
  case (Cons q patterns)
  from Cons.prems(1) obtain c1 where
    c1: "scan_files fm dir_path json_titles used etl q json_files cands = Inr c1"
    and c2: "scan_patterns fm dir_path json_titles used etl json_files patterns c1 = Inr cands'"
    by (auto split: sum.splits)
  show ?case
  proof (cases "pattern = q")
    case True
    with scan_files_Inr_exact[OF c1 Cons.prems(3)] Cons.prems(4) show ?thesis by simp
  next
    case False
    with Cons.prems(2) have "pattern \<in> set patterns" by simp
    from Cons.IH[OF c2 this Cons.prems(3,4)] show ?thesis .
  qed
qed

lemma scan_patterns_Inr_cands:
  "scan_patterns fm dir_path json_titles used etl json_files patterns cands = Inr cands' \<Longrightarrow>
   cands_ok dir_path json_titles used json_files cands \<Longrightarrow>
   cands_ok dir_path json_titles used json_files cands'"
proof (induction patterns arbitrary: cands)
  case Nil
  then show ?case by simp
next
  case (Cons q patterns)
  from Cons.prems(1) obtain c1 where
    c1: "scan_files fm dir_path json_titles used etl q json_files cands = Inr c1"
    and c2: "scan_patterns fm dir_path json_titles used etl json_files patterns c1 = Inr cands'"
    by (auto split: sum.splits)
  from scan_files_Inr_cands[OF c1 subset_refl Cons.prems(2)] Cons.IH[OF c2] show ?case by simp
qed

lemma first_matching_Some:
  "first_matching expected_title media_ext cands = Some p \<Longrightarrow>
   \<exists>c\<in>set cands. fst c = p \<and> is_matching_title (fst (snd c)) expected_title media_ext"
  by (induction cands) (auto split: if_splits)

lemma probe_files_Some:
  "probe_files fm dir_path json_titles used expected_title media_ext etl pattern files = Some p \<Longrightarrow>
   \<exists>f\<in>set files. hit fm dir_path used pattern f \<and> p = join dir_path f \<and>
      (lower (get_title json_titles f) = etl \<or>
       is_matching_title (get_title json_titles f) expected_title media_ext)"
  by (induction files) (auto simp: Let_def hit_def split: if_splits)


lemma probe_lengths_Some:
  "probe_lengths fm dir_path json_titles used expected_title media_ext etl json_files prefix lens = Some p \<Longrightarrow>
   \<exists>f\<in>set json_files. p = join dir_path f \<and> p \<notin> used \<and>
      (lower (get_title json_titles f) = etl \<or>
       is_matching_title (get_title json_titles f) expected_title media_ext)"
proof (induction lens)
  case Nil
  then show ?case by simp
next
  case (Cons len lens)
  show ?case
  proof (cases "probe_files fm dir_path json_titles used expected_title media_ext etl
                  (take (nat len) prefix @ ''*.json'') json_files")
    case None
    with Cons show ?thesis by (simp add: Let_def)
  next
    case (Some q)
    with Cons.prems have "q = p" by (simp add: Let_def)
    with probe_files_Some[OF Some] show ?thesis by (auto simp: hit_def)
  qed
qed


text \<open>
  Whatever \<open>find_misnamed_json\<close> returns is the path of a sidecar of the listing that is
  not in \<open>used_jsons\<close> and whose cached title is an exact or an accepted fuzzy match.
\<close>

lemma find_misnamed_json_sound:
  assumes "find_misnamed_json fm dir_path base_name media_ext num_suffix json_files json_titles used
             suffix_variants min_prefix_factor step_divisor = Inr (Some p)"
  shows "\<exists>f\<in>set json_files. p = join dir_path f \<and> p \<notin> used \<and>
      (lower (get_title json_titles f) = lower (base_name @ media_ext) \<or>
       is_matching_title (get_title json_titles f) (base_name @ media_ext) media_ext)"
proof -
  let ?etl = "lower (base_name @ media_ext)"
  let ?pats = "patterns_of base_name media_ext num_suffix suffix_variants"
  show ?thesis
  proof (cases "scan_patterns fm dir_path json_titles used ?etl json_files ?pats []")
    case (Inl q)
    with assms have "q = p" by (simp add: find_misnamed_json_def Let_def)
    with scan_patterns_Inl[OF Inl] show ?thesis by (auto simp: hit_def)
  next
    case (Inr cands)
    have ok: "cands_ok dir_path json_titles used json_files cands"
      by (rule scan_patterns_Inr_cands[OF Inr]) (simp add: cands_ok_def)
    show ?thesis
    proof (cases "first_matching (base_name @ media_ext) media_ext cands")
      case (Some q)
      with assms Inr have "q = p" by (simp add: find_misnamed_json_def Let_def)
      with first_matching_Some[OF Some] ok show ?thesis by (fastforce simp: cands_ok_def)
    next
      case None
      from assms Inr None obtain lens where
        l1: "trunc_lengths (length base_name) min_prefix_factor step_divisor = Inr lens"
        by (auto simp: find_misnamed_json_def Let_def split: sum.splits)
      show ?thesis
      proof (cases "probe_lengths fm dir_path json_titles used (base_name @ media_ext) media_ext
                      ?etl json_files base_name lens")
        case (Some q)
        with assms Inr None l1 have "q = p" by (simp add: find_misnamed_json_def Let_def)
        with probe_lengths_Some[OF Some] show ?thesis by simp
      next
        case n2: None
        from assms Inr None l1 n2 obtain lens' where
          l2: "trunc_lengths (length (base_name @ media_ext)) min_prefix_factor step_divisor = Inr lens'"
          and r: "probe_lengths fm dir_path json_titles used (base_name @ media_ext) media_ext
                      ?etl json_files (base_name @ media_ext) lens' = Some p"
          by (auto simp: find_misnamed_json_def Let_def split: sum.splits)
        from probe_lengths_Some[OF r] show ?thesis by simp
      qed
    qed
  qed
qed

lemma is_media_file_ext: "is_media_file media_file \<Longrightarrow> snd (splitext media_file) \<noteq> []"
  by (auto simp: is_media_file_def lower_def)

lemma join_inject:
  "\<not> startswith b ''/'' \<Longrightarrow> \<not> startswith b' ''/'' \<Longrightarrow> join a b = join a b' \<Longrightarrow> b = b'"
  by (simp add: join_def split: if_splits)

text \<open>
  C10. For a media file (its extension is on the allow-list, so it is not empty), a sidecar
  of the listing whose cached title is empty is never the result of
  \<open>find_misnamed_json\<close>. The sidecar names are directory entries: none starts with a
  separator.
\<close>

theorem find_misnamed_json_skips_empty_title:
  assumes media: "is_media_file media_file" and ext: "splitext media_file = (media_name, media_ext)"
    and f: "f \<in> set json_files" and empty: "get_title json_titles f = []"
    and names: "\<forall>g\<in>set json_files. \<not> startswith g ''/''"
  shows "find_misnamed_json fm dir_path base_name media_ext num_suffix json_files json_titles used
           suffix_variants min_prefix_factor step_divisor \<noteq> Inr (Some (join dir_path f))"
proof
  assume "find_misnamed_json fm dir_path base_name media_ext num_suffix json_files json_titles used
           suffix_variants min_prefix_factor step_divisor = Inr (Some (join dir_path f))"
  from find_misnamed_json_sound[OF this] obtain g where
    g: "g \<in> set json_files" "join dir_path f = join dir_path g"
    and t: "lower (get_title json_titles g) = lower (base_name @ media_ext) \<or>
            is_matching_title (get_title json_titles g) (base_name @ media_ext) media_ext"
    by blast
  from names f g have "f = g" using join_inject by blast
  with empty have tg: "get_title json_titles g = []" by simp
  from media ext have ne: "media_ext \<noteq> []" using is_media_file_ext[of media_file] by simp
  from t show False
  proof
    assume "lower (get_title json_titles g) = lower (base_name @ media_ext)"
    with tg ne show False by (simp add: lower_def)
  next
    assume "is_matching_title (get_title json_titles g) (base_name @ media_ext) media_ext"
    from is_matching_title_endswith[OF this] tg ne show False
      by (simp add: lower_def endswith_def)
  qed
qed

text \<open>
  A sidecar without a title whose name matches the first pattern of \<open>IMG_01.jpg\<close>.
\<close>

theorem find_misnamed_json_skips_empty_title_witness:
  "is_media_file ''IMG_01.jpg'' \<and> splitext ''IMG_01.jpg'' = (''IMG_01'', ''.jpg'') \<and>
   get_title Map.empty ''IMG_01.jpg.suppl.json'' = [] \<and>
   fnmatch (lower ''IMG_01.jpg.suppl.json'') (lower ''IMG_01.jpg.suppl.json'') \<and>
   find_misnamed_json fnmatch ''d'' ''IMG_01'' ''.jpg'' [] [''IMG_01.jpg.suppl.json'']
     Map.empty {} [''suppl''] f_0_7 15 \<noteq> Inr (Some (join ''d'' ''IMG_01.jpg.suppl.json''))"
proof -
  have h1: "is_media_file ''IMG_01.jpg''" by code_simp
  have h2: "splitext ''IMG_01.jpg'' = (''IMG_01'', ''.jpg'')" by code_simp
  have h3: "''IMG_01.jpg.suppl.json'' \<in> set [''IMG_01.jpg.suppl.json'']" by simp
  have h4: "get_title Map.empty ''IMG_01.jpg.suppl.json'' = []" by (simp add: get_title_def)
  have h5: "\<forall>g\<in>set [''IMG_01.jpg.suppl.json'']. \<not> startswith g ''/''" by (simp add: startswith_def)
  have h6: "fnmatch (lower ''IMG_01.jpg.suppl.json'') (lower ''IMG_01.jpg.suppl.json'')" by code_simp
  from find_misnamed_json_skips_empty_title[OF h1 h2 h3 h4 h5, where fm = fnmatch and dir_path = "''d''"
         and base_name = "''IMG_01''" and num_suffix = "[]" and used = "{}"
         and suffix_variants = "[''suppl'']" and min_prefix_factor = f_0_7 and step_divisor = 15]
       h1 h2 h4 h6
  show ?thesis by blast
qed

text \<open>
  C3 as stated fails. The claim: at every tier the fuzzy matcher is consulted only after no
  pattern of the tier gave an exact title, and a sidecar with an exact title is always
  found through the exact-title path. In the truncation sweep each file is tested for an
  exact title and then at once by the fuzzy matcher: below, both sidecars match the same
  truncated pattern only, the first is accepted by the fuzzy matcher and is returned,
  although the second has the exact title.
\<close>

theorem find_misnamed_json_fuzzy_before_exact:
  "find_misnamed_json fnmatch ''d'' ''IMG_20230101_123456789'' ''.jpg'' []
     [''IMG_20230101_123456789_a.json'', ''IMG_20230101_123456789_b.json'']
     (map_of [(''IMG_20230101_123456789_a.json'', ''IMG_20230101_123456788.jpg''),
              (''IMG_20230101_123456789_b.json'', ''IMG_20230101_123456789.jpg'')])
     {} [''suppl''] f_0_7 15 = Inr (Some (join ''d'' ''IMG_20230101_123456789_a.json'')) \<and>
   lower ''IMG_20230101_123456788.jpg'' \<noteq> lower (''IMG_20230101_123456789'' @ ''.jpg'') \<and>
   is_matching_title ''IMG_20230101_123456788.jpg'' (''IMG_20230101_123456789'' @ ''.jpg'') ''.jpg'' \<and>
   lower ''IMG_20230101_123456789.jpg'' = lower (''IMG_20230101_123456789'' @ ''.jpg'') \<and>
   fnmatch (lower ''IMG_20230101_123456789_b.json'')
     (lower (take 22 ''IMG_20230101_123456789'' @ ''*.json''))"
  by code_simp

text \<open>
  C3, amended. In the pattern tier: when some sidecar of the listing that is not in
  \<open>used_jsons\<close> matches one of the patterns and has a cached title equal to the expected
  title in lower case, the pattern scan returns early, \<open>find_misnamed_json\<close> returns the
  path of that scan, and this path belongs to an unused sidecar with an exact title. The
  scan never calls the fuzzy matcher, which sees the candidates only after the scan has
  ended without an exact title.
\<close>

theorem find_misnamed_json_exact_title_in_patterns:
  assumes pat: "pattern \<in> set (patterns_of base_name media_ext num_suffix suffix_variants)"
    and f: "f \<in> set json_files" and m: "fm (lower f) (lower pattern)"
    and unused: "join dir_path f \<notin> used"
    and exact: "lower (get_title json_titles f) = lower (base_name @ media_ext)"
  shows "\<exists>p. scan_patterns fm dir_path json_titles used (lower (base_name @ media_ext)) json_files
                (patterns_of base_name media_ext num_suffix suffix_variants) [] = Inl p \<and>
             find_misnamed_json fm dir_path base_name media_ext num_suffix json_files json_titles used
                suffix_variants min_prefix_factor step_divisor = Inr (Some p) \<and>
             p \<notin> used \<and>
             (\<exists>g\<in>set json_files. p = join dir_path g \<and>
                 lower (get_title json_titles g) = lower (base_name @ media_ext))"
proof (cases "scan_patterns fm dir_path json_titles used (lower (base_name @ media_ext)) json_files
                (patterns_of base_name media_ext num_suffix suffix_variants) []")
  case (Inr cands)
  from scan_patterns_Inr_exact[OF Inr pat f] m unused exact show ?thesis by (simp add: hit_def)
next
  case (Inl p)
  have "find_misnamed_json fm dir_path base_name media_ext num_suffix json_files json_titles used
                suffix_variants min_prefix_factor step_divisor = Inr (Some p)"
    using Inl by (simp add: find_misnamed_json_def Let_def)
  with Inl scan_patterns_Inl[OF Inl] show ?thesis by (auto simp: hit_def)
qed

text \<open>
  An exact title that differs from the expected title in case only.
\<close>

theorem find_misnamed_json_exact_title_in_patterns_witness:
  "''IMG_01.jpg.suppl.json'' \<in> set (patterns_of ''IMG_01'' ''.jpg'' [] [''suppl'']) \<and>
   fnmatch (lower ''IMG_01.jpg.suppl.json'') (lower ''IMG_01.jpg.suppl.json'') \<and>
   lower (get_title (map_of [(''IMG_01.jpg.suppl.json'', ''img_01.JPG'')]) ''IMG_01.jpg.suppl.json'') =
     lower (''IMG_01'' @ ''.jpg'') \<and>
   find_misnamed_json fnmatch ''d'' ''IMG_01'' ''.jpg'' [] [''IMG_01.jpg.suppl.json'']
     (map_of [(''IMG_01.jpg.suppl.json'', ''img_01.JPG'')]) {} [''suppl''] f_0_7 15 =
     Inr (Some ''d/IMG_01.jpg.suppl.json'')"
proof -
  have h1: "''IMG_01.jpg.suppl.json'' \<in> set (patterns_of ''IMG_01'' ''.jpg'' [] [''suppl''])"
    by (simp add: patterns_of_def suffix_patterns_def)
  have h2: "''IMG_01.jpg.suppl.json'' \<in> set [''IMG_01.jpg.suppl.json'']" by simp
  have h3: "fnmatch (lower ''IMG_01.jpg.suppl.json'') (lower ''IMG_01.jpg.suppl.json'')" by code_simp
  have h4: "join ''d'' ''IMG_01.jpg.suppl.json'' \<notin> {}" by simp
  have h5: "lower (get_title (map_of [(''IMG_01.jpg.suppl.json'', ''img_01.JPG'')]) ''IMG_01.jpg.suppl.json'') =
     lower (''IMG_01'' @ ''.jpg'')" by code_simp
  have j: "join ''d'' ''IMG_01.jpg.suppl.json'' = ''d/IMG_01.jpg.suppl.json''" by code_simp
  from find_misnamed_json_exact_title_in_patterns[where fm = fnmatch and min_prefix_factor = f_0_7
         and step_divisor = 15, OF h1 h2 h3 h4 h5]
  have "find_misnamed_json fnmatch ''d'' ''IMG_01'' ''.jpg'' [] [''IMG_01.jpg.suppl.json'']
     (map_of [(''IMG_01.jpg.suppl.json'', ''img_01.JPG'')]) {} [''suppl''] f_0_7 15 =
     Inr (Some ''d/IMG_01.jpg.suppl.json'')"
    using j by auto
  with h1 h3 h5 show ?thesis by blast
qed




section \<open>Properties of the session\<close>

text \<open>
  C8. When the match of a media file is not at its canonical path and the canonical path
  exists, the loop goes on to the next media file with the disk and \<open>used_jsons\<close>
  unchanged and one more event, the conflict: no rename and no embedding for that file.
\<close>

theorem process_media_files_conflict_skips:
  assumes "splitext media_file = (media_name, media_ext)"
    and "parse_duplicate_number media_name = (base_name, num_suffix)"
    and "find_misnamed_json fm subdir base_name media_ext num_suffix json_files json_titles
           (used_jsons s) suffix_variants min_prefix_factor step_divisor = Inr (Some json_path)"
    and "json_path \<noteq> []"
    and "preferred_json_path =
           join subdir (base_name @ num_suffix @ media_ext @ ''.supplemental-metadata.json'')"
    and "json_path \<noteq> preferred_json_path"
    and "preferred_json_path \<in> disk s"
  shows "process_media_files fm exiftool subdir json_files json_titles dry_run suffix_variants
           min_prefix_factor step_divisor do_embed create_backup (media_file # media_files) s =
         process_media_files fm exiftool subdir json_files json_titles dry_run suffix_variants
           min_prefix_factor step_divisor do_embed create_backup media_files
           (s\<lparr>trace := trace s @ [Conflict (join subdir media_file) json_path preferred_json_path]\<rparr>)"
  using assms by (simp add: handle_media_def Let_def add_event_def)

text \<open>
  The canonical sidecar of \<open>IMG_01.jpg\<close> exists without a title, and the match is the
  sidecar with the short suffix.
\<close>

theorem process_media_files_conflict_skips_witness:
  "find_misnamed_json fnmatch ''d'' ''IMG_01'' ''.jpg'' []
     [''IMG_01.jpg.supplemental-metadata.json'', ''IMG_01.jpg.suppl.json'']
     (map_of [(''IMG_01.jpg.suppl.json'', ''IMG_01.jpg'')]) {} [''supplemental-metadata'', ''suppl'']
     f_0_7 15 = Inr (Some ''d/IMG_01.jpg.suppl.json'') \<and>
   process_media_files fnmatch True ''d'' [''IMG_01.jpg.supplemental-metadata.json'', ''IMG_01.jpg.suppl.json'']
     (map_of [(''IMG_01.jpg.suppl.json'', ''IMG_01.jpg'')]) False [''supplemental-metadata'', ''suppl'']
     f_0_7 15 True False [''IMG_01.jpg'']
     \<lparr>used_jsons = {},
      disk = {''d/IMG_01.jpg'', ''d/IMG_01.jpg.supplemental-metadata.json'', ''d/IMG_01.jpg.suppl.json''},
      trace = []\<rparr> =
   (None,
    \<lparr>used_jsons = {},
     disk = {''d/IMG_01.jpg'', ''d/IMG_01.jpg.supplemental-metadata.json'', ''d/IMG_01.jpg.suppl.json''},
     trace = [Conflict ''d/IMG_01.jpg'' ''d/IMG_01.jpg.suppl.json''
                ''d/IMG_01.jpg.supplemental-metadata.json'']\<rparr>)"
proof -
  let ?s = "\<lparr>used_jsons = {},
      disk = {''d/IMG_01.jpg'', ''d/IMG_01.jpg.supplemental-metadata.json'', ''d/IMG_01.jpg.suppl.json''},
      trace = []\<rparr>"
  have h1: "splitext ''IMG_01.jpg'' = (''IMG_01'', ''.jpg'')" by code_simp
  have h2: "parse_duplicate_number ''IMG_01'' = (''IMG_01'', [])" by code_simp
  have h3: "find_misnamed_json fnmatch ''d'' ''IMG_01'' ''.jpg'' []
     [''IMG_01.jpg.supplemental-metadata.json'', ''IMG_01.jpg.suppl.json'']
     (map_of [(''IMG_01.jpg.suppl.json'', ''IMG_01.jpg'')]) (used_jsons ?s) [''supplemental-metadata'', ''suppl'']
     f_0_7 15 = Inr (Some ''d/IMG_01.jpg.suppl.json'')" by code_simp
  have h4: "''d/IMG_01.jpg.suppl.json'' \<noteq> []" by simp
  have h5: "''d/IMG_01.jpg.supplemental-metadata.json'' =
            join ''d'' (''IMG_01'' @ [] @ ''.jpg'' @ ''.supplemental-metadata.json'')" by code_simp
  have h6: "''d/IMG_01.jpg.suppl.json'' \<noteq> ''d/IMG_01.jpg.supplemental-metadata.json''" by simp
  have h7: "''d/IMG_01.jpg.supplemental-metadata.json'' \<in> disk ?s" by simp
  have j: "join ''d'' ''IMG_01.jpg'' = ''d/IMG_01.jpg''" by code_simp
  from process_media_files_conflict_skips[OF h1 h2 h3 h4 h5 h6 h7, where dry_run = False
         and exiftool = True and do_embed = True and create_backup = False and media_files = "[]"] h3 j
  show ?thesis by simp
qed

lemma resolutions_append: "resolutions (xs @ ys) = resolutions xs @ resolutions ys"
  by (induction xs) (simp_all add: resolutions_def map_filter_simps split: option.splits)

lemma resolutions_single: "resolutions [ev] = (case resolution_of ev of None \<Rightarrow> [] | Some r \<Rightarrow> [r])"
  by (simp add: resolutions_def map_filter_simps split: option.splits)

lemma upto_first_rename_append:
  "upto_first_rename (xs @ ys) =
     (if has_rename xs then upto_first_rename xs else xs @ upto_first_rename ys)"
  by (induction xs) (auto simp: has_rename_def)

lemma has_rename_append: "has_rename (xs @ ys) \<longleftrightarrow> has_rename xs \<or> has_rename ys"
  by (simp add: has_rename_def)

lemma handle_media_unfold:
  assumes "splitext fl = (media_name, media_ext)"
    and "parse_duplicate_number media_name = (base_name, num_suffix)"
  shows "handle_media fm exiftool subdir json_files json_titles dry_run sv mpf sd do_embed create_backup fl s =
     (case find_misnamed_json fm subdir base_name media_ext num_suffix json_files json_titles
                (used_jsons s) sv mpf sd of
        Inl e \<Rightarrow> (Some e, s)
      | Inr None \<Rightarrow> (None, add_event (No_json (join subdir fl)) s)
      | Inr (Some j) \<Rightarrow>
          if j = [] then (None, add_event (No_json (join subdir fl)) s)
          else settle exiftool dry_run do_embed create_backup (join subdir fl) j
                 (join subdir (base_name @ num_suffix @ media_ext @ ''.supplemental-metadata.json'')) s)"
  using assms by (simp add: handle_media_def Let_def settle_def split: sum.splits option.splits)

lemma add_event_fields:
  "used_jsons (add_event ev s) = used_jsons s"
  "disk (add_event ev s) = disk s"
  "trace (add_event ev s) = trace s @ [ev]"
  by (simp_all add: add_event_def)

lemma embed_if_renamed_fields:
  "used_jsons (snd (embed_if_renamed x e m p d c (r, s))) = used_jsons s"
  "disk (snd (embed_if_renamed x e m p d c (r, s))) = disk s"
  "resolutions (trace (snd (embed_if_renamed x e m p d c (r, s)))) = resolutions (trace s)"
  "\<exists>evs. trace (snd (embed_if_renamed x e m p d c (r, s))) = trace s @ evs"
  by (simp_all add: embed_if_renamed_def embed_metadata_def add_event_def resolutions_append
                    resolutions_single)

lemma embed_if_renamed_ok:
  "e \<longrightarrow> d \<or> x \<Longrightarrow> fst (embed_if_renamed x e m p d c rs) = None"
  by (cases rs) (auto simp: embed_if_renamed_def embed_metadata_def)

lemma settle_trace:
  "\<exists>evs. trace (snd (settle exiftool dry_run do_embed create_backup m j p s)) = trace s @ evs"
proof -
  have *: "\<exists>evs. trace (snd (embed_if_renamed x e m p d c (r, add_event ev t))) = trace s @ evs"
    if "trace t = trace s" for x e d c r ev t
    using embed_if_renamed_fields(4)[of x e m p d c r "add_event ev t"] that
    by (auto simp: add_event_fields)
  show ?thesis
    by (simp add: settle_def add_event_fields *)
qed

lemma handle_media_trace:
  "\<exists>evs. trace (snd (handle_media fm exiftool subdir json_files json_titles dry_run sv mpf sd
                        do_embed create_backup fl s)) = trace s @ evs"
proof -
  obtain media_name media_ext where sp: "splitext fl = (media_name, media_ext)" by (cases "splitext fl")
  obtain base_name num_suffix where pa: "parse_duplicate_number media_name = (base_name, num_suffix)"
    by (cases "parse_duplicate_number media_name")
  show ?thesis
    unfolding handle_media_unfold[OF sp pa]
    using settle_trace
    by (simp add: add_event_fields split: sum.splits option.splits)
qed

lemma process_media_files_trace:
  "\<exists>evs. trace (snd (process_media_files fm exiftool subdir json_files json_titles dry_run sv mpf sd
                        do_embed create_backup fls s)) = trace s @ evs"
proof (induction fls arbitrary: s)
  case Nil
  show ?case by simp
next
  case (Cons fl fls)
  obtain r s' where h: "handle_media fm exiftool subdir json_files json_titles dry_run sv mpf sd
                          do_embed create_backup fl s = (r, s')"
    by (cases "handle_media fm exiftool subdir json_files json_titles dry_run sv mpf sd
                          do_embed create_backup fl s")
  from handle_media_trace[of fm exiftool subdir json_files json_titles dry_run sv mpf sd
                          do_embed create_backup fl s] h
  obtain e1 where e1: "trace s' = trace s @ e1" by auto
  show ?case
  proof (cases r)
    case (Some e)
    with h e1 show ?thesis by simp
  next
    case None
    from Cons.IH[of s'] obtain e2 where
      "trace (snd (process_media_files fm exiftool subdir json_files json_titles dry_run sv mpf sd
                        do_embed create_backup fls s')) = trace s' @ e2" by blast
    with e1 h None show ?thesis by simp
  qed
qed

lemma process_after_rename:
  assumes "has_rename (resolutions (trace s))"
  shows "upto_first_rename (resolutions (trace (snd (process_media_files fm exiftool subdir json_files
            json_titles dry_run sv mpf sd do_embed create_backup fls s)))) =
         upto_first_rename (resolutions (trace s))"
proof -
  from process_media_files_trace[of fm exiftool subdir json_files json_titles dry_run sv mpf sd
         do_embed create_backup fls s]
  obtain evs where "trace (snd (process_media_files fm exiftool subdir json_files
            json_titles dry_run sv mpf sd do_embed create_backup fls s)) = trace s @ evs" by blast
  then show ?thesis using assms by (simp add: resolutions_append upto_first_rename_append)
qed

lemma settle_modes:
  assumes "sim s1 s2" and tool: "do_embed \<longrightarrow> exiftool"
  shows "fst (settle exiftool True do_embed create_backup m j p s1) = None \<and>
         fst (settle exiftool False do_embed create_backup m j p s2) = None \<and>
         step_agrees s1 s2 (snd (settle exiftool True do_embed create_backup m j p s1))
                           (snd (settle exiftool False do_embed create_backup m j p s2))"
proof -
  have ok: "fst (settle exiftool d do_embed create_backup m j p s) = None" for d s
    using tool by (simp add: settle_def embed_if_renamed_ok)
  have "step_agrees s1 s2 (snd (settle exiftool True do_embed create_backup m j p s1))
                           (snd (settle exiftool False do_embed create_backup m j p s2))"
  proof (cases "j \<noteq> p \<and> p \<notin> disk s1")
    case False
    then show ?thesis using assms(1)
      by (auto simp: step_agrees_def settle_def sim_def embed_if_renamed_fields add_event_fields
                     resolutions_append resolutions_single)
  next
    case True
    have d: "p \<notin> disk s2" using True assms(1) by (simp add: sim_def)
    have "resolutions (trace (snd (settle exiftool True do_embed create_backup m j p s1))) =
          resolutions (trace s1) @ [(m, j, True)]"
      using True by (simp add: settle_def embed_if_renamed_fields add_event_fields resolutions_append
                     resolutions_single)
    moreover have "resolutions (trace (snd (settle exiftool False do_embed create_backup m j p s2))) =
          resolutions (trace s2) @ [(m, j, True)]"
      using True d by (simp add: settle_def embed_if_renamed_fields add_event_fields resolutions_append
                     resolutions_single)
    ultimately show ?thesis
      unfolding step_agrees_def by (intro disjI2 exI[of _ "(m, j, True)"]) simp
  qed
  with ok show ?thesis by simp
qed

lemma handle_media_modes:
  assumes "sim s1 s2" and tool: "do_embed \<longrightarrow> exiftool"
  shows "fst (handle_media fm exiftool subdir json_files json_titles True sv mpf sd do_embed create_backup fl s1) =
         fst (handle_media fm exiftool subdir json_files json_titles False sv mpf sd do_embed create_backup fl s2) \<and>
         step_agrees s1 s2
           (snd (handle_media fm exiftool subdir json_files json_titles True sv mpf sd do_embed create_backup fl s1))
           (snd (handle_media fm exiftool subdir json_files json_titles False sv mpf sd do_embed create_backup fl s2))"
proof -
  obtain media_name media_ext where sp: "splitext fl = (media_name, media_ext)" by (cases "splitext fl")
  obtain base_name num_suffix where pa: "parse_duplicate_number media_name = (base_name, num_suffix)"
    by (cases "parse_duplicate_number media_name")
  have u: "used_jsons s1 = used_jsons s2" using assms by (simp add: sim_def)
  have ev: "step_agrees s1 s2 (add_event ev s1) (add_event ev s2)" for ev
    using assms by (simp add: step_agrees_def sim_def add_event_fields resolutions_append)
  have same: "step_agrees s1 s2 s1 s2" using assms(1) by (simp add: step_agrees_def)
  show ?thesis
    unfolding handle_media_unfold[OF sp pa] u
    using ev same settle_modes[OF assms]
    by (simp split: sum.splits option.splits)
qed

lemma process_media_files_modes:
  assumes tool: "do_embed \<longrightarrow> exiftool"
  shows "sim s1 s2 \<Longrightarrow>
   upto_first_rename (resolutions (trace (snd (process_media_files fm exiftool subdir json_files json_titles
       True sv mpf sd do_embed create_backup fls s1)))) =
   upto_first_rename (resolutions (trace (snd (process_media_files fm exiftool subdir json_files json_titles
       False sv mpf sd do_embed create_backup fls s2))))"
proof (induction fls arbitrary: s1 s2)
  case Nil
  then show ?case by (simp add: sim_def)
next
  case (Cons fl fls)
  obtain r1 a where h1: "handle_media fm exiftool subdir json_files json_titles True sv mpf sd
                           do_embed create_backup fl s1 = (r1, a)"
    by (cases "handle_media fm exiftool subdir json_files json_titles True sv mpf sd
                           do_embed create_backup fl s1")
  obtain r2 b where h2: "handle_media fm exiftool subdir json_files json_titles False sv mpf sd
                           do_embed create_backup fl s2 = (r2, b)"
    by (cases "handle_media fm exiftool subdir json_files json_titles False sv mpf sd
                           do_embed create_backup fl s2")
  from handle_media_modes[OF Cons.prems tool, of fm subdir json_files json_titles sv mpf sd create_backup fl]
       h1 h2
  have r: "r1 = r2" and ag: "step_agrees s1 s2 a b" by simp_all
  from ag have alt: "sim a b \<or>
      (\<exists>r. snd (snd r) \<and> resolutions (trace a) = resolutions (trace s1) @ [r] \<and>
           resolutions (trace b) = resolutions (trace s2) @ [r])"
    by (simp add: step_agrees_def)
  have now: "upto_first_rename (resolutions (trace a)) = upto_first_rename (resolutions (trace b))"
    using alt Cons.prems by (auto simp: sim_def)
  show ?case
  proof (cases r1)
    case (Some e)
    with r have "r2 = Some e" by simp
    with h1 h2 Some now show ?thesis by simp
  next
    case None
    with r have r2: "r2 = None" by simp
    from alt show ?thesis
    proof
      assume "sim a b"
      from Cons.IH[OF this] h1 h2 r2 None show ?thesis by simp
    next
      assume "\<exists>r. snd (snd r) \<and> resolutions (trace a) = resolutions (trace s1) @ [r] \<and>
                  resolutions (trace b) = resolutions (trace s2) @ [r]"
      then obtain q where q: "snd (snd q)" "resolutions (trace a) = resolutions (trace s1) @ [q]"
        "resolutions (trace b) = resolutions (trace s2) @ [q]" by blast
      have ha: "has_rename (resolutions (trace a))" and hb: "has_rename (resolutions (trace b))"
        using q by (simp_all add: has_rename_def)
      show ?thesis
        using h1 h2 r2 None now process_after_rename[OF ha] process_after_rename[OF hb] by simp
    qed
  qed
qed

text \<open>
  C2 as stated fails. The claim: the resolutions of a directory are the same with and
  without \<open>dry_run\<close>. The media files \<open>a(1) .jpg\<close> and \<open>a(1).jpg\<close> have the same
  canonical sidecar path. The real run renames the first sidecar to it and then finds the
  path taken for the second file, a conflict; the simulated run changes nothing on disk and
  resolves both.
\<close>

theorem process_subdir_modes_differ:
  "resolutions (trace (snd (process_subdir fnmatch True
      (map_of [(''d/a(1).jpg.suppl.json'', ''a(1).jpg''), (''d/a.jpg.suppl.json'', ''a.jpg'')])
      True [''suppl''] f_0_7 15 False False ''d''
      [''a(1) .jpg'', ''a(1).jpg'', ''a(1).jpg.suppl.json'', ''a.jpg.suppl.json'']
      {''d/a(1) .jpg'', ''d/a(1).jpg'', ''d/a(1).jpg.suppl.json'', ''d/a.jpg.suppl.json''}))) \<noteq>
   resolutions (trace (snd (process_subdir fnmatch True
      (map_of [(''d/a(1).jpg.suppl.json'', ''a(1).jpg''), (''d/a.jpg.suppl.json'', ''a.jpg'')])
      False [''suppl''] f_0_7 15 False False ''d''
      [''a(1) .jpg'', ''a(1).jpg'', ''a(1).jpg.suppl.json'', ''a.jpg.suppl.json'']
      {''d/a(1) .jpg'', ''d/a(1).jpg'', ''d/a(1).jpg.suppl.json'', ''d/a.jpg.suppl.json''})))"
proof -
  have dry: "resolutions (trace (snd (process_subdir fnmatch True
      (map_of [(''d/a(1).jpg.suppl.json'', ''a(1).jpg''), (''d/a.jpg.suppl.json'', ''a.jpg'')])
      True [''suppl''] f_0_7 15 False False ''d''
      [''a(1) .jpg'', ''a(1).jpg'', ''a(1).jpg.suppl.json'', ''a.jpg.suppl.json'']
      {''d/a(1) .jpg'', ''d/a(1).jpg'', ''d/a(1).jpg.suppl.json'', ''d/a.jpg.suppl.json''}))) =
    [(''d/a(1) .jpg'', ''d/a(1).jpg.suppl.json'', True), (''d/a(1).jpg'', ''d/a.jpg.suppl.json'', True)]"
    by code_simp
  have real: "resolutions (trace (snd (process_subdir fnmatch True
      (map_of [(''d/a(1).jpg.suppl.json'', ''a(1).jpg''), (''d/a.jpg.suppl.json'', ''a.jpg'')])
      False [''suppl''] f_0_7 15 False False ''d''
      [''a(1) .jpg'', ''a(1).jpg'', ''a(1).jpg.suppl.json'', ''a.jpg.suppl.json'']
      {''d/a(1) .jpg'', ''d/a(1).jpg'', ''d/a(1).jpg.suppl.json'', ''d/a.jpg.suppl.json''}))) =
    [(''d/a(1) .jpg'', ''d/a(1).jpg.suppl.json'', True)]"
    by code_simp
  show ?thesis unfolding dry real by simp
qed

text \<open>
  C2, amended. When the metadata tool can be started if embedding is on, the resolutions of
  the simulated and of the real run of a directory agree up to and including the first
  resolution that needs a rename.
\<close>

theorem process_subdir_modes_agree_upto_first_rename:
  assumes "do_embed \<longrightarrow> exiftool"
  shows "upto_first_rename (resolutions (trace (snd (process_subdir fm exiftool contents True
           suffix_variants min_prefix_factor step_divisor do_embed create_backup subdir files initial_disk)))) =
         upto_first_rename (resolutions (trace (snd (process_subdir fm exiftool contents False
           suffix_variants min_prefix_factor step_divisor do_embed create_backup subdir files initial_disk))))"
  unfolding process_subdir_def Let_def
  by (rule process_media_files_modes[OF assms]) (simp add: sim_def)

text \<open>
  A directory with one sidecar at its canonical path and one to rename.
\<close>

theorem process_subdir_modes_agree_upto_first_rename_witness:
  "upto_first_rename (resolutions (trace (snd (process_subdir fnmatch True
      (map_of [(''d/IMG_02.jpg.supplemental-metadata.json'', ''IMG_02.jpg''),
               (''d/IMG_03.jpg.suppl.json'', ''IMG_03.jpg'')])
      False [''supplemental-metadata'', ''suppl''] f_0_7 15 True False ''d''
      [''IMG_03.jpg'', ''IMG_02.jpg'', ''IMG_02.jpg.supplemental-metadata.json'', ''IMG_03.jpg.suppl.json'']
      {''d/IMG_03.jpg'', ''d/IMG_02.jpg'', ''d/IMG_02.jpg.supplemental-metadata.json'',
       ''d/IMG_03.jpg.suppl.json''})))) =
   [(''d/IMG_02.jpg'', ''d/IMG_02.jpg.supplemental-metadata.json'', False),
    (''d/IMG_03.jpg'', ''d/IMG_03.jpg.suppl.json'', True)]"
proof -
  have tool: "True \<longrightarrow> True" by simp
  have "upto_first_rename (resolutions (trace (snd (process_subdir fnmatch True
      (map_of [(''d/IMG_02.jpg.supplemental-metadata.json'', ''IMG_02.jpg''),
               (''d/IMG_03.jpg.suppl.json'', ''IMG_03.jpg'')])
      True [''supplemental-metadata'', ''suppl''] f_0_7 15 True False ''d''
      [''IMG_03.jpg'', ''IMG_02.jpg'', ''IMG_02.jpg.supplemental-metadata.json'', ''IMG_03.jpg.suppl.json'']
      {''d/IMG_03.jpg'', ''d/IMG_02.jpg'', ''d/IMG_02.jpg.supplemental-metadata.json'',
       ''d/IMG_03.jpg.suppl.json''})))) =
   [(''d/IMG_02.jpg'', ''d/IMG_02.jpg.supplemental-metadata.json'', False),
    (''d/IMG_03.jpg'', ''d/IMG_03.jpg.suppl.json'', True)]" by code_simp
  then show ?thesis
    using process_subdir_modes_agree_upto_first_rename[OF tool, where fm = fnmatch
      and contents = "map_of [(''d/IMG_02.jpg.supplemental-metadata.json'', ''IMG_02.jpg''),
               (''d/IMG_03.jpg.suppl.json'', ''IMG_03.jpg'')]"
      and suffix_variants = "[''supplemental-metadata'', ''suppl'']" and min_prefix_factor = f_0_7
      and step_divisor = 15 and create_backup = False and subdir = "''d''"
      and files = "[''IMG_03.jpg'', ''IMG_02.jpg'', ''IMG_02.jpg.supplemental-metadata.json'',
                    ''IMG_03.jpg.suppl.json'']"
      and initial_disk = "{''d/IMG_03.jpg'', ''d/IMG_02.jpg'', ''d/IMG_02.jpg.supplemental-metadata.json'',
       ''d/IMG_03.jpg.suppl.json''}"]
    by simp
qed

text \<open>
  C1 (code differs). The claim: no sidecar path is returned for two media files of a
  directory, with and without \<open>dry_run\<close>. After a real rename the source adds the new
  path to \<open>used_jsons\<close>, while the listing still holds the old name: the old path is
  returned again for \<open>IMG_01(1).jpg\<close>, whose own sidecar is never reached. The simulated
  run adds the matched path and resolves the two files to two sidecars.
\<close>

theorem process_subdir_real_mode_double_match:
  "resolutions (trace (snd (process_subdir fnmatch True
      (map_of [(''d/IMG_01.jpg.suppl.json'', ''IMG_01.jpg''), (''d/IMG_01.jpg.su.json'', ''IMG_01.jpg'')])
      False [''suppl'', ''su''] f_0_7 15 False False ''d''
      [''IMG_01(1).jpg'', ''IMG_01.jpg'', ''IMG_01.jpg.su.json'', ''IMG_01.jpg.suppl.json'']
      {''d/IMG_01(1).jpg'', ''d/IMG_01.jpg'', ''d/IMG_01.jpg.su.json'', ''d/IMG_01.jpg.suppl.json''}))) =
     [(''d/IMG_01.jpg'', ''d/IMG_01.jpg.suppl.json'', True),
      (''d/IMG_01(1).jpg'', ''d/IMG_01.jpg.suppl.json'', True)] \<and>
   resolutions (trace (snd (process_subdir fnmatch True
      (map_of [(''d/IMG_01.jpg.suppl.json'', ''IMG_01.jpg''), (''d/IMG_01.jpg.su.json'', ''IMG_01.jpg'')])
      True [''suppl'', ''su''] f_0_7 15 False False ''d''
      [''IMG_01(1).jpg'', ''IMG_01.jpg'', ''IMG_01.jpg.su.json'', ''IMG_01.jpg.suppl.json'']
      {''d/IMG_01(1).jpg'', ''d/IMG_01.jpg'', ''d/IMG_01.jpg.su.json'', ''d/IMG_01.jpg.suppl.json''}))) =
     [(''d/IMG_01.jpg'', ''d/IMG_01.jpg.suppl.json'', True),
      (''d/IMG_01(1).jpg'', ''d/IMG_01.jpg.su.json'', True)]"
  by code_simp

end
